theory Spec2Isabelle
  imports Complex_Main "HOL-Library.Multiset"
begin

section \<open>Tables\<close>

text \<open>
  The dashboard of \<^verbatim>\<open>app/app.py\<close> works on pandas data frames read from CSV files.
  A cell of such a frame is a number, a text, or missing (\<^verbatim>\<open>NaN\<close>).
  Numbers are exact reals here: rounding of 64-bit floats and the infinities are
  outside this development.
  A frame is a list of column names and a list of rows; a row carries its index label,
  which pandas keeps through filtering and sorting, and one cell per column.
\<close>

datatype cell = Num real | Str string | NaN

type_synonym row = "nat \<times> cell list"

record table =
  columns :: "string list"
  rows :: "row list"

datatype py_error = KeyError | IndexError | TypeError | AttributeError | ValueError

text \<open>\<^verbatim>\<open>pd.DataFrame()\<close> and \<^verbatim>\<open>df.empty\<close> (true when either axis has length 0).\<close>

definition empty_frame :: table where
  "empty_frame = \<lparr>columns = [], rows = []\<rparr>"

definition empty_df :: "table \<Rightarrow> bool" where
  "empty_df t \<longleftrightarrow> columns t = [] \<or> rows t = []"

text \<open>
  The frames this program handles come from \<^verbatim>\<open>pd.read_csv\<close> or are \<^verbatim>\<open>pd.DataFrame()\<close>:
  every row has one cell per column, and a frame without columns has no rows.
\<close>

definition wf_table :: "table \<Rightarrow> bool" where
  "wf_table t \<longleftrightarrow>
     list_all (\<lambda>r. length (snd r) = length (columns t)) (rows t) \<and> (columns t = [] \<longrightarrow> rows t = [])"

text \<open>The positions at which a column name occurs; names may repeat in a frame.\<close>

definition positions :: "string \<Rightarrow> string list \<Rightarrow> nat list" where
  "positions c cs = filter (\<lambda>j. cs ! j = c) [0..<length cs]"

text \<open>\<^verbatim>\<open>df.rename(columns={...})\<close>: names absent from the mapping stay.\<close>

definition rename_columns :: "(string \<times> string) list \<Rightarrow> table \<Rightarrow> table" where
  "rename_columns m t =
     t\<lparr>columns := map (\<lambda>c. case map_of m c of Some c' \<Rightarrow> c' | None \<Rightarrow> c) (columns t)\<rparr>"

text \<open>
  \<^verbatim>\<open>df[c]\<close> used as a series: \<^verbatim>\<open>KeyError\<close> when no column has that name. When several
  have it pandas returns a frame, and each use this program makes of it as a series
  raises; the error passed as \<open>dup\<close> is the one raised at that use. The result is the
  position of the column.
\<close>

definition getitem :: "py_error \<Rightarrow> string \<Rightarrow> table \<Rightarrow> py_error + nat" where
  "getitem dup c t =
     (case positions c (columns t) of
        [] \<Rightarrow> Inl KeyError
      | [j] \<Rightarrow> Inr j
      | _ \<Rightarrow> Inl dup)"

text \<open>
  \<^verbatim>\<open>df[c] = values\<close>, the values computed row by row by \<open>f\<close>: every column named
  \<open>c\<close> is overwritten; when there is none, the column is appended.
\<close>

definition set_row :: "string \<Rightarrow> (cell list \<Rightarrow> cell) \<Rightarrow> string list \<Rightarrow> row \<Rightarrow> row" where
  "set_row c f cols r =
     (fst r,
      if c \<in> set cols
      then map (\<lambda>(name, x). if name = c then f (snd r) else x) (zip cols (snd r))
      else snd r @ [f (snd r)])"

definition with_column :: "string \<Rightarrow> string list \<Rightarrow> string list" where
  "with_column c cols = (if c \<in> set cols then cols else cols @ [c])"

definition setitem :: "string \<Rightarrow> (cell list \<Rightarrow> cell) \<Rightarrow> table \<Rightarrow> table" where
  "setitem c f t =
     t\<lparr>columns := with_column c (columns t),
       rows := map (set_row c f (columns t)) (rows t)\<rparr>"

text \<open>
  \<^verbatim>\<open>pd.to_numeric(..., errors="coerce")\<close> on one cell. The number parser of pandas
  is library code; it is the parameter \<open>parse\<close>.
\<close>

fun to_numeric :: "(string \<Rightarrow> real option) \<Rightarrow> cell \<Rightarrow> cell" where
  "to_numeric parse (Num v) = Num v"
| "to_numeric parse (Str s) = (case parse s of Some v \<Rightarrow> Num v | None \<Rightarrow> NaN)"
| "to_numeric parse NaN = NaN"

text \<open>\<^verbatim>\<open>df.dropna(subset=[...])\<close>: a row goes when any of the named columns is missing.\<close>

definition dropna :: "string list \<Rightarrow> table \<Rightarrow> py_error + table" where
  "dropna names t =
     (if \<exists>c \<in> set names. c \<notin> set (columns t) then Inl KeyError
      else Inr (t\<lparr>rows := filter
                  (\<lambda>(i, cs). \<forall>c \<in> set names. \<forall>j \<in> set (positions c (columns t)). cs ! j \<noteq> NaN)
                  (rows t)\<rparr>))"

text \<open>
  \<^verbatim>\<open>df.sort_values(c)\<close>. pandas sorts the rows whose key is present with numpy's
  \<^verbatim>\<open>argsort\<close> (quicksort by default, so the order among equal keys is not fixed)
  and puts the rows whose key is missing last, in their old order. The sorting
  routine is the parameter \<open>srt\<close>; \<open>sorts_by\<close> is all that is assumed of it.
\<close>

type_synonym sorter = "(row \<Rightarrow> real) \<Rightarrow> row list \<Rightarrow> row list"

definition sorts_by :: "sorter \<Rightarrow> bool" where
  "sorts_by srt \<longleftrightarrow> (\<forall>f xs. mset (srt f xs) = mset xs \<and> sorted (map f (srt f xs)))"

definition key_of :: "(cell \<Rightarrow> real option) \<Rightarrow> nat \<Rightarrow> row \<Rightarrow> real" where
  "key_of key j r = (case key (snd r ! j) of Some v \<Rightarrow> v | None \<Rightarrow> 0)"

definition sort_values :: "string \<Rightarrow> (cell \<Rightarrow> real option) \<Rightarrow> sorter \<Rightarrow> table \<Rightarrow> py_error + table" where
  "sort_values c key srt t =
     (case positions c (columns t) of
        [] \<Rightarrow> Inl KeyError
      | [j] \<Rightarrow> Inr (t\<lparr>rows := srt (key_of key j) (filter (\<lambda>r. key (snd r ! j) \<noteq> None) (rows t))
                              @ filter (\<lambda>r. key (snd r ! j) = None) (rows t)\<rparr>)
      | _ \<Rightarrow> Inl ValueError)"

text \<open>The sort key of a numeric column. A text cell has none; the columns sorted
  numerically in this program have been coerced before, so they hold no text.\<close>

fun num_key :: "cell \<Rightarrow> real option" where
  "num_key (Num v) = Some v"
| "num_key _ = None"

section \<open>Percent-series shapers: \<^verbatim>\<open>prep_lottery\<close> and \<^verbatim>\<open>prep_crypto\<close>\<close>

text \<open>
  The two functions have the same body and differ in the name of the metric column
  (\<^verbatim>\<open>under30_lottery_pct\<close> / \<^verbatim>\<open>Under30LotteryPct\<close> and
  \<^verbatim>\<open>under30_crypto_pct\<close> / \<^verbatim>\<open>Under30CryptoPct\<close>); \<open>prep_pct\<close> is that body.
\<close>

definition coerce_column :: "(string \<Rightarrow> real option) \<Rightarrow> string \<Rightarrow> table \<Rightarrow> py_error + table" where
  "coerce_column parse c df =
     (case getitem TypeError c df of
        Inl e \<Rightarrow> Inl e
      | Inr j \<Rightarrow> Inr (setitem c (\<lambda>cs. to_numeric parse (cs ! j)) df))"

definition prep_pct ::
  "string \<Rightarrow> string \<Rightarrow> (string \<Rightarrow> real option) \<Rightarrow> sorter \<Rightarrow> table \<Rightarrow> py_error + table" where
  "prep_pct src metric parse srt t =
     (if empty_df t then Inr t
      else
        let df = rename_columns [(''year'', ''Year''), (src, metric), (''source'', ''Source'')] t in
        case coerce_column parse ''Year'' df of
          Inl e \<Rightarrow> Inl e
        | Inr df1 \<Rightarrow>
           (case coerce_column parse metric df1 of
              Inl e \<Rightarrow> Inl e
            | Inr df2 \<Rightarrow>
               (case dropna [''Year'', metric] df2 of
                  Inl e \<Rightarrow> Inl e
                | Inr df3 \<Rightarrow> sort_values ''Year'' num_key srt df3)))"

definition prep_lottery :: "(string \<Rightarrow> real option) \<Rightarrow> sorter \<Rightarrow> table \<Rightarrow> py_error + table" where
  "prep_lottery = prep_pct ''under30_lottery_pct'' ''Under30LotteryPct''"

definition prep_crypto :: "(string \<Rightarrow> real option) \<Rightarrow> sorter \<Rightarrow> table \<Rightarrow> py_error + table" where
  "prep_crypto = prep_pct ''under30_crypto_pct'' ''Under30CryptoPct''"

section \<open>Spend shaper: \<^verbatim>\<open>prep_bls\<close>\<close>

text \<open>
  \<^verbatim>\<open>str.lower\<close> on the ASCII letters; other bytes stay (no letter outside ASCII
  lowers to a letter of \<^verbatim>\<open>all ages\<close>).
\<close>

definition lower_char :: "char \<Rightarrow> char" where
  "lower_char c =
     (let n = (of_char c :: nat) in if 65 \<le> n \<and> n \<le> 90 then char_of (n + 32) else c)"

definition lower :: "string \<Rightarrow> string" where
  "lower s = map lower_char s"

text \<open>
  \<^verbatim>\<open>series.str\<close> exists on a column of object dtype only. In a frame read from
  CSV a column has that dtype exactly when it holds a text.
\<close>

definition has_str_accessor :: "nat \<Rightarrow> table \<Rightarrow> bool" where
  "has_str_accessor j t \<longleftrightarrow> list_ex (\<lambda>r. case snd r ! j of Str s \<Rightarrow> True | _ \<Rightarrow> False) (rows t)"

text \<open>One element of \<^verbatim>\<open>series.str.lower() != "all ages"\<close>: a cell that is no text
  lowers to \<^verbatim>\<open>NaN\<close>, which differs from every text.\<close>

fun not_all_ages :: "cell \<Rightarrow> bool" where
  "not_all_ages (Str s) = (lower s \<noteq> ''all ages'')"
| "not_all_ages _ = True"

definition drop_all_ages :: "table \<Rightarrow> py_error + table" where
  "drop_all_ages df =
     (case getitem AttributeError ''AgeGroup'' df of
        Inl e \<Rightarrow> Inl e
      | Inr j \<Rightarrow>
          if has_str_accessor j df
          then Inr (df\<lparr>rows := filter (\<lambda>r. not_all_ages (snd r ! j)) (rows df)\<rparr>)
          else Inl AttributeError)"

fun div12 :: "cell \<Rightarrow> cell" where
  "div12 (Num v) = Num (v / 12)"
| "div12 _ = NaN"

definition add_monthly :: "(string \<Rightarrow> real option) \<Rightarrow> table \<Rightarrow> py_error + table" where
  "add_monthly parse df =
     (case getitem TypeError ''AvgAnnualSpend'' df of
        Inl e \<Rightarrow> Inl e
      | Inr j \<Rightarrow> Inr (setitem ''AvgMonthlySpend'' (\<lambda>cs. div12 (to_numeric parse (cs ! j))) df))"

definition age_order :: "string list" where
  "age_order = [''Under 25'', ''25-34'', ''35-44'', ''45-54'', ''55-64'', ''65-74'', ''75+'']"

text \<open>\<^verbatim>\<open>pd.Categorical(values, categories=age_order, ordered=True)\<close>: a value that is
  no category becomes missing; the sort key of a category is its rank.\<close>

fun categorical :: "cell \<Rightarrow> cell" where
  "categorical (Str s) = (if s \<in> set age_order then Str s else NaN)"
| "categorical _ = NaN"

fun rank :: "string \<Rightarrow> string list \<Rightarrow> nat option" where
  "rank s [] = None"
| "rank s (c # cs) = (if s = c then Some 0 else map_option Suc (rank s cs))"

fun cat_code :: "cell \<Rightarrow> real option" where
  "cat_code (Str s) = map_option real (rank s age_order)"
| "cat_code _ = None"

definition order_by_age :: "sorter \<Rightarrow> table \<Rightarrow> py_error + table" where
  "order_by_age srt df =
     (case getitem TypeError ''AgeGroup'' df of
        Inl e \<Rightarrow> Inl e
      | Inr j \<Rightarrow> sort_values ''AgeGroup'' cat_code srt
                  (setitem ''AgeGroup'' (\<lambda>cs. categorical (cs ! j)) df))"

definition prep_bls :: "(string \<Rightarrow> real option) \<Rightarrow> sorter \<Rightarrow> table \<Rightarrow> py_error + table" where
  "prep_bls parse srt bls_in =
     (if empty_df bls_in then Inr bls_in
      else
        let df = rename_columns
                   [(''age_group'', ''AgeGroup''), (''avg_annual_spend_usd'', ''AvgAnnualSpend'')]
                   bls_in in
        case (if ''AgeGroup'' \<in> set (columns df) then drop_all_ages df else Inr df) of
          Inl e \<Rightarrow> Inl e
        | Inr df1 \<Rightarrow>
           (case (if ''AvgAnnualSpend'' \<in> set (columns df1) then add_monthly parse df1 else Inr df1) of
              Inl e \<Rightarrow> Inl e
            | Inr df2 \<Rightarrow>
                if ''AgeGroup'' \<in> set (columns df2) then order_by_age srt df2 else Inr df2))"

section \<open>Stating the properties\<close>

text \<open>The cell of a row in the column of a given name, when exactly one column has it.\<close>

definition cell_of :: "string \<Rightarrow> table \<Rightarrow> row \<Rightarrow> cell option" where
  "cell_of c t r = (case positions c (columns t) of [j] \<Rightarrow> Some (snd r ! j) | _ \<Rightarrow> None)"

definition fails_coercion :: "(string \<Rightarrow> real option) \<Rightarrow> string \<Rightarrow> table \<Rightarrow> row \<Rightarrow> bool" where
  "fails_coercion parse c t r =
     (case cell_of c t r of Some x \<Rightarrow> to_numeric parse x = NaN | None \<Rightarrow> False)"

definition numeric_in :: "string \<Rightarrow> table \<Rightarrow> row \<Rightarrow> bool" where
  "numeric_in c t r = (case cell_of c t r of Some (Num v) \<Rightarrow> True | _ \<Rightarrow> False)"

definition year_le :: "table \<Rightarrow> row \<Rightarrow> row \<Rightarrow> bool" where
  "year_le t r r' =
     (case (cell_of ''Year'' t r, cell_of ''Year'' t r') of
        (Some (Num y), Some (Num y')) \<Rightarrow> y \<le> y'
      | _ \<Rightarrow> False)"

definition pct_series_ok :: "string \<Rightarrow> string \<Rightarrow> (string \<Rightarrow> real option) \<Rightarrow> table \<Rightarrow> table \<Rightarrow> bool" where
  "pct_series_ok src metric parse t out \<longleftrightarrow>
     (let df = rename_columns [(''year'', ''Year''), (src, metric), (''source'', ''Source'')] t in
      (\<forall>r \<in> set (rows t).
          fails_coercion parse ''Year'' df r \<or> fails_coercion parse metric df r
          \<longrightarrow> fst r \<notin> fst ` set (rows out))
      \<and> (\<forall>r \<in> set (rows out). numeric_in ''Year'' out r \<and> numeric_in metric out r)
      \<and> sorted_wrt (year_le out) (rows out))"

fun is_all_ages :: "cell option \<Rightarrow> bool" where
  "is_all_ages (Some (Str s)) = (lower s = ''all ages'')"
| "is_all_ages _ = False"

fun in_bucket :: "cell \<Rightarrow> bool" where
  "in_bucket (Str s) = (s \<in> set age_order)"
| "in_bucket _ = False"

definition monthly_ok :: "(string \<Rightarrow> real option) \<Rightarrow> table \<Rightarrow> row \<Rightarrow> bool" where
  "monthly_ok parse t r =
     (case cell_of ''AvgAnnualSpend'' t r of
        None \<Rightarrow> True
      | Some x \<Rightarrow>
         (case to_numeric parse x of
            Num v \<Rightarrow> positions ''AvgMonthlySpend'' (columns t) \<noteq> []
                     \<and> (\<forall>j \<in> set (positions ''AvgMonthlySpend'' (columns t)). snd r ! j = Num (v / 12))
          | _ \<Rightarrow> True))"

definition age_le :: "table \<Rightarrow> row \<Rightarrow> row \<Rightarrow> bool" where
  "age_le t r r' =
     (case (cell_of ''AgeGroup'' t r, cell_of ''AgeGroup'' t r') of
        (Some x, Some x') \<Rightarrow>
          (case cat_code x' of
             None \<Rightarrow> x' = NaN
           | Some k' \<Rightarrow> (case cat_code x of Some k \<Rightarrow> k \<le> k' | None \<Rightarrow> False))
      | _ \<Rightarrow> False)"

text \<open>A label that is none of the seven age groups and is not \<^verbatim>\<open>all ages\<close> in any casing.\<close>

fun unlisted :: "cell option \<Rightarrow> bool" where
  "unlisted (Some x) = (\<not> in_bucket x \<and> not_all_ages x)"
| "unlisted None = False"

section \<open>Example frames\<close>

text \<open>A number parser that knows the texts used in the examples.\<close>

definition ex_parse :: "string \<Rightarrow> real option" where
  "ex_parse s =
     (if s = ''2016'' then Some 2016 else if s = ''2003'' then Some 2003
      else if s = ''483.84'' then Some (48384 / 100) else None)"

definition ex_lottery :: table where
  "ex_lottery =
     \<lparr>columns = [''year'', ''under30_lottery_pct'', ''source''],
      rows = [(0, [Str ''2016'', Num 51, Str ''Gallup'']),
              (1, [Str ''unknown'', Num 40, Str ''Gallup'']),
              (2, [Str ''2003'', Num 61, Str ''Gallup''])]\<rparr>"

definition ex_lottery_out :: table where
  "ex_lottery_out =
     \<lparr>columns = [''Year'', ''Under30LotteryPct'', ''Source''],
      rows = [(2, [Num 2003, Num 61, Str ''Gallup'']),
              (0, [Num 2016, Num 51, Str ''Gallup''])]\<rparr>"

definition ex_crypto :: table where
  "ex_crypto =
     \<lparr>columns = [''year'', ''under30_crypto_pct'', ''source''],
      rows = [(0, [Num 2024, Num 42, Str ''Gemini'']),
              (1, [Num 2015, NaN, Str ''Pew'']),
              (2, [Num 2018, Num 9, Str ''Finder''])]\<rparr>"

definition ex_crypto_out :: table where
  "ex_crypto_out =
     \<lparr>columns = [''Year'', ''Under30CryptoPct'', ''Source''],
      rows = [(2, [Num 2018, Num 9, Str ''Finder'']),
              (0, [Num 2024, Num 42, Str ''Gemini''])]\<rparr>"

section \<open>Proofs\<close>

lemma set_positions: "set (positions c cs) = {k. k < length cs \<and> cs ! k = c}"
  by (auto simp: positions_def)

lemma positions_singleD:
  assumes "positions c cs = [j]"
  shows "j < length cs" and "cs ! j = c" and "\<And>k. k < length cs \<Longrightarrow> cs ! k = c \<Longrightarrow> k = j"
proof -
  have s: "{k. k < length cs \<and> cs ! k = c} = {j}"
    using assms set_positions [of c cs] by simp
  show "j < length cs" using s by blast
  show "cs ! j = c" using s by blast
  show "\<And>k. k < length cs \<Longrightarrow> cs ! k = c \<Longrightarrow> k = j" using s by blast
qed

lemma positions_Nil_iff: "positions c cs = [] \<longleftrightarrow> c \<notin> set cs"
proof -
  have "positions c cs = [] \<longleftrightarrow> set (positions c cs) = {}" by simp
  also have "\<dots> \<longleftrightarrow> c \<notin> set cs" unfolding set_positions by (auto simp: in_set_conv_nth)
  finally show ?thesis .
qed

lemma positions_append_other: "c' \<noteq> c \<Longrightarrow> positions c' (cols @ [c]) = positions c' cols"
proof -
  assume ne: "c' \<noteq> c"
  have "filter (\<lambda>j. (cols @ [c]) ! j = c') [0..<length cols] = filter (\<lambda>j. cols ! j = c') [0..<length cols]"
    by (rule filter_cong) (simp_all add: nth_append)
  then show ?thesis using ne by (simp add: positions_def)
qed

lemma positions_with_column_other: "c' \<noteq> c \<Longrightarrow> positions c' (with_column c cols) = positions c' cols"
  by (simp add: with_column_def positions_append_other)

lemma with_column_mem: "c \<in> set (with_column c cols)"
  by (simp add: with_column_def)

lemma with_column_mem_other: "c' \<noteq> c \<Longrightarrow> c' \<in> set (with_column c cols) \<longleftrightarrow> c' \<in> set cols"
  by (simp add: with_column_def)

lemma length_set_row:
  "length (snd r) = length cols \<Longrightarrow> length (snd (set_row c f cols r)) = length (with_column c cols)"
  by (simp add: set_row_def with_column_def)

lemma fst_set_row: "fst (set_row c f cols r) = fst r"
  by (simp add: set_row_def)

lemma set_row_nth:
  assumes len: "length (snd r) = length cols" and j: "j < length (with_column c cols)"
  shows "snd (set_row c f cols r) ! j = (if with_column c cols ! j = c then f (snd r) else snd r ! j)"
proof (cases "c \<in> set cols")
  case True
  then have jl: "j < length cols" using j by (simp add: with_column_def)
  show ?thesis using True jl len by (simp add: set_row_def with_column_def)
next
  case False
  show ?thesis
  proof (cases "j < length cols")
    case True
    then have "cols ! j \<noteq> c" using False by (metis nth_mem)
    then show ?thesis using False True len by (simp add: set_row_def with_column_def nth_append)
  next
    case False2: False
    then have "j = length cols" using j False by (simp add: with_column_def)
    then show ?thesis using False len by (simp add: set_row_def with_column_def nth_append)
  qed
qed

lemma wf_table_length: "wf_table t \<Longrightarrow> r \<in> set (rows t) \<Longrightarrow> length (snd r) = length (columns t)"
  by (simp add: wf_table_def list_all_iff)

lemma wf_table_empty: "wf_table t \<Longrightarrow> empty_df t \<Longrightarrow> rows t = []"
  by (auto simp: wf_table_def empty_df_def)

lemma wf_tableI:
  assumes "\<And>r. r \<in> set (rows t) \<Longrightarrow> length (snd r) = length (columns t)"
    and "columns t = [] \<Longrightarrow> rows t = []"
  shows "wf_table t"
  using assms by (simp add: wf_table_def list_all_iff)

lemma wf_setitem: assumes "wf_table t" shows "wf_table (setitem c f t)"
proof (rule wf_tableI)
  fix r assume "r \<in> set (rows (setitem c f t))"
  then obtain r0 where r0: "r0 \<in> set (rows t)" and r: "r = set_row c f (columns t) r0"
    by (auto simp: setitem_def)
  show "length (snd r) = length (columns (setitem c f t))"
    unfolding r using length_set_row [OF wf_table_length [OF assms r0]] by (simp add: setitem_def)
next
  assume "columns (setitem c f t) = []"
  then have "columns t = []" by (simp add: setitem_def with_column_def split: if_splits)
  then show "rows (setitem c f t) = []" using assms by (simp add: wf_table_def setitem_def)
qed

lemma wf_rows_subset:
  assumes "wf_table t" and "set rs \<subseteq> set (rows t)"
  shows "wf_table (t\<lparr>rows := rs\<rparr>)"
proof (rule wf_tableI)
  fix r assume "r \<in> set (rows (t\<lparr>rows := rs\<rparr>))"
  then have "r \<in> set (rows t)" using assms(2) by auto
  then show "length (snd r) = length (columns (t\<lparr>rows := rs\<rparr>))"
    using wf_table_length [OF assms(1)] by simp
next
  assume "columns (t\<lparr>rows := rs\<rparr>) = []"
  then have "rows t = []" using assms(1) by (simp add: wf_table_def)
  then show "rows (t\<lparr>rows := rs\<rparr>) = []" using assms(2) by simp
qed

text \<open>Overwriting the one column of a name is a list update.\<close>

lemma set_row_unique:
  assumes p: "positions c cols = [j]" and len: "length (snd r) = length cols"
  shows "set_row c f cols r = (fst r, (snd r)[j := f (snd r)])"
proof -
  have mem: "c \<in> set cols" using p positions_Nil_iff [of c cols] by auto
  then have wc: "with_column c cols = cols" by (simp add: with_column_def)
  have "snd (set_row c f cols r) = (snd r)[j := f (snd r)]"
  proof (rule nth_equalityI)
    show "length (snd (set_row c f cols r)) = length ((snd r)[j := f (snd r)])"
      using length_set_row [OF len, of c f] wc len by simp
  next
    fix k assume "k < length (snd (set_row c f cols r))"
    then have k: "k < length cols" using length_set_row [OF len, of c f] wc by simp
    have iff: "cols ! k = c \<longleftrightarrow> k = j"
      using k positions_singleD(2,3) [OF p] by blast
    have lhs: "snd (set_row c f cols r) ! k = (if cols ! k = c then f (snd r) else snd r ! k)"
      using set_row_nth [OF len, of k c f] k wc by simp
    have rhs: "(snd r)[j := f (snd r)] ! k = (if k = j then f (snd r) else snd r ! k)"
      using k len by (simp add: nth_list_update eq_commute)
    show "snd (set_row c f cols r) ! k = (snd r)[j := f (snd r)] ! k"
      unfolding lhs rhs using iff by simp
  qed
  then show ?thesis by (simp add: prod_eq_iff fst_set_row)
qed

lemma setitem_unique:
  assumes "wf_table t" and "positions c (columns t) = [j]"
  shows "setitem c f t = t\<lparr>rows := map (\<lambda>r. (fst r, (snd r)[j := f (snd r)])) (rows t)\<rparr>"
proof -
  have "c \<in> set (columns t)" using assms(2) positions_Nil_iff [of c "columns t"] by auto
  then have "with_column c (columns t) = columns t" by (simp add: with_column_def)
  moreover have "map (set_row c f (columns t)) (rows t)
      = map (\<lambda>r. (fst r, (snd r)[j := f (snd r)])) (rows t)"
    by (rule map_cong [OF refl]) (rule set_row_unique [OF assms(2) wf_table_length [OF assms(1)]])
  ultimately show ?thesis by (simp add: setitem_def)
qed

lemma sorts_by_sort_key: "sorts_by sort_key"
  unfolding sorts_by_def by (intro allI conjI) (rule mset_sort, rule sorted_sort_key)

lemma getitem_Inr: "getitem dup c t = Inr j \<longleftrightarrow> positions c (columns t) = [j]"
  by (simp add: getitem_def split: list.splits)

lemma coerce_column_Inr:
  assumes "wf_table df" and "coerce_column parse c df = Inr df'"
  obtains j where "positions c (columns df) = [j]"
    and "df' = df\<lparr>rows := map (\<lambda>r. (fst r, (snd r)[j := to_numeric parse (snd r ! j)])) (rows df)\<rparr>"
proof -
  from assms(2) obtain j where j: "getitem TypeError c df = Inr j"
    and d: "df' = setitem c (\<lambda>cs. to_numeric parse (cs ! j)) df"
    by (auto simp: coerce_column_def split: sum.splits)
  from j have p: "positions c (columns df) = [j]" by (simp add: getitem_Inr)
  show thesis
    using that [OF p] d setitem_unique [OF assms(1) p] by simp
qed

lemma dropna_Inr:
  assumes "dropna names t = Inr t'"
  shows "t' = t\<lparr>rows := filter
                  (\<lambda>(i, cs). \<forall>c \<in> set names. \<forall>j \<in> set (positions c (columns t)). cs ! j \<noteq> NaN)
                  (rows t)\<rparr>"
  using assms by (simp add: dropna_def split: if_splits)

lemma sort_values_Inr:
  assumes "sort_values c key srt t = Inr t'"
  obtains j where "positions c (columns t) = [j]"
    and "t' = t\<lparr>rows := srt (key_of key j) (filter (\<lambda>r. key (snd r ! j) \<noteq> None) (rows t))
                              @ filter (\<lambda>r. key (snd r ! j) = None) (rows t)\<rparr>"
  using assms by (auto simp: sort_values_def split: list.splits)

lemma wf_table_rows_map:
  assumes "wf_table t" and "\<And>r. r \<in> set (rows t) \<Longrightarrow> length (snd (g r)) = length (snd r)"
  shows "wf_table (t\<lparr>rows := map g (rows t)\<rparr>)"
proof (rule wf_tableI)
  fix r assume "r \<in> set (rows (t\<lparr>rows := map g (rows t)\<rparr>))"
  then obtain r0 where "r0 \<in> set (rows t)" "r = g r0" by auto
  then show "length (snd r) = length (columns (t\<lparr>rows := map g (rows t)\<rparr>))"
    using assms(2) wf_table_length [OF assms(1)] by simp
next
  assume "columns (t\<lparr>rows := map g (rows t)\<rparr>) = []"
  then show "rows (t\<lparr>rows := map g (rows t)\<rparr>) = []" using assms(1) by (simp add: wf_table_def)
qed

lemma sorts_by_set: "sorts_by srt \<Longrightarrow> set (srt f xs) = set xs"
  unfolding sorts_by_def by (metis set_mset_mset)

lemma sorts_by_sorted: "sorts_by srt \<Longrightarrow> sorted (map f (srt f xs))"
  unfolding sorts_by_def by blast

text \<open>What prep_pct computes on a frame that is not empty.\<close>

lemma prep_pct_rows:
  assumes wf: "wf_table t" and ne: "\<not> empty_df t" and my: "metric \<noteq> ''Year''"
    and res: "prep_pct src metric parse srt t = Inr out"
  obtains jy jm where
    "positions ''Year'' (columns out) = [jy]" and "positions metric (columns out) = [jm]"
    and "columns out = columns (rename_columns [(''year'', ''Year''), (src, metric), (''source'', ''Source'')] t)"
    and "rows out =
       srt (key_of num_key jy)
         (filter (\<lambda>r. num_key (snd r ! jy) \<noteq> None)
           (filter (\<lambda>r. snd r ! jy \<noteq> NaN \<and> snd r ! jm \<noteq> NaN)
             (map (\<lambda>r. (fst r, (snd r)[jy := to_numeric parse (snd r ! jy), jm := to_numeric parse (snd r ! jm)]))
               (rows t))))
       @ filter (\<lambda>r. num_key (snd r ! jy) = None)
           (filter (\<lambda>r. snd r ! jy \<noteq> NaN \<and> snd r ! jm \<noteq> NaN)
             (map (\<lambda>r. (fst r, (snd r)[jy := to_numeric parse (snd r ! jy), jm := to_numeric parse (snd r ! jm)]))
               (rows t)))"
proof -
  define df where "df = rename_columns [(''year'', ''Year''), (src, metric), (''source'', ''Source'')] t"
  have wf_df: "wf_table df" and rows_df: "rows df = rows t"
    using wf by (simp_all add: df_def rename_columns_def wf_table_def)
  from res ne obtain df1 df2 df3 where
    c1: "coerce_column parse ''Year'' df = Inr df1" and
    c2: "coerce_column parse metric df1 = Inr df2" and
    c3: "dropna [''Year'', metric] df2 = Inr df3" and
    c4: "sort_values ''Year'' num_key srt df3 = Inr out"
    unfolding prep_pct_def df_def [symmetric] Let_def
    by (simp split: sum.splits)
  from coerce_column_Inr [OF wf_df c1] obtain jy where
    jy: "positions ''Year'' (columns df) = [jy]" and
    d1: "df1 = df\<lparr>rows := map (\<lambda>r. (fst r, (snd r)[jy := to_numeric parse (snd r ! jy)])) (rows df)\<rparr>"
    by blast
  have cols1: "columns df1 = columns df" using d1 by simp
  have wf1: "wf_table df1"
    unfolding d1 by (rule wf_table_rows_map [OF wf_df]) simp
  from coerce_column_Inr [OF wf1 c2] obtain jm where
    jm: "positions metric (columns df1) = [jm]" and
    d2: "df2 = df1\<lparr>rows := map (\<lambda>r. (fst r, (snd r)[jm := to_numeric parse (snd r ! jm)])) (rows df1)\<rparr>"
    by blast
  have neq: "jy \<noteq> jm"
    using positions_singleD(2) [OF jy] positions_singleD(2) [OF jm] my cols1 by auto
  have cols2: "columns df2 = columns df" using d2 cols1 by simp
  have rows2: "rows df2 = map (\<lambda>r. (fst r, (snd r)[jy := to_numeric parse (snd r ! jy), jm := to_numeric parse (snd r ! jm)])) (rows t)"
    using neq by (simp add: d2 d1 rows_df o_def)
  have d3: "df3 = df2\<lparr>rows := filter
                  (\<lambda>(i, cs). \<forall>c \<in> set [''Year'', metric]. \<forall>j \<in> set (positions c (columns df2)). cs ! j \<noteq> NaN)
                  (rows df2)\<rparr>"
    by (rule dropna_Inr [OF c3])
  have pred: "(\<lambda>(i, cs). \<forall>c \<in> set [''Year'', metric]. \<forall>j \<in> set (positions c (columns df2)). cs ! j \<noteq> NaN)
      = (\<lambda>r. snd r ! jy \<noteq> NaN \<and> snd r ! jm \<noteq> NaN)"
    using jy jm cols1 cols2 by (auto simp: fun_eq_iff)
  have cols3: "columns df3 = columns df" using d3 cols2 by simp
  have rows3: "rows df3 = filter (\<lambda>r. snd r ! jy \<noteq> NaN \<and> snd r ! jm \<noteq> NaN) (rows df2)"
    using d3 unfolding pred by simp
  from sort_values_Inr [OF c4] obtain j where
    j: "positions ''Year'' (columns df3) = [j]" and
    d4: "out = df3\<lparr>rows := srt (key_of num_key j) (filter (\<lambda>r. num_key (snd r ! j) \<noteq> None) (rows df3))
                              @ filter (\<lambda>r. num_key (snd r ! j) = None) (rows df3)\<rparr>"
    by blast
  have jj: "j = jy" using j jy cols3 by simp
  have cols4: "columns out = columns df" using d4 cols3 by simp
  show thesis
  proof (rule that [of jy jm])
    show "positions ''Year'' (columns out) = [jy]" using jy cols4 by simp
    show "positions metric (columns out) = [jm]" using jm cols1 cols4 by simp
    show "columns out = columns (rename_columns [(''year'', ''Year''), (src, metric), (''source'', ''Source'')] t)"
      using cols4 df_def by simp
    show "rows out =
       srt (key_of num_key jy)
         (filter (\<lambda>r. num_key (snd r ! jy) \<noteq> None)
           (filter (\<lambda>r. snd r ! jy \<noteq> NaN \<and> snd r ! jm \<noteq> NaN)
             (map (\<lambda>r. (fst r, (snd r)[jy := to_numeric parse (snd r ! jy), jm := to_numeric parse (snd r ! jm)]))
               (rows t))))
       @ filter (\<lambda>r. num_key (snd r ! jy) = None)
           (filter (\<lambda>r. snd r ! jy \<noteq> NaN \<and> snd r ! jm \<noteq> NaN)
             (map (\<lambda>r. (fst r, (snd r)[jy := to_numeric parse (snd r ! jy), jm := to_numeric parse (snd r ! jm)]))
               (rows t)))"
      unfolding d4 jj rows3 rows2 by simp
  qed
qed

lemma to_numeric_cases: "to_numeric parse x = NaN \<or> (\<exists>v. to_numeric parse x = Num v)"
  by (cases x) (auto split: option.splits)

lemma prep_pct_ok:
  assumes srt: "sorts_by srt" and wf: "wf_table t" and dist: "distinct (map fst (rows t))"
    and my: "metric \<noteq> ''Year''"
    and res: "prep_pct src metric parse srt t = Inr out"
  shows "pct_series_ok src metric parse t out"
proof (cases "empty_df t")
  case True
  then have "rows t = []" using wf by (rule wf_table_empty [rotated])
  moreover have "out = t" using res True by (simp add: prep_pct_def)
  ultimately show ?thesis by (simp add: pct_series_ok_def)
next
  case False
  define df where "df = rename_columns [(''year'', ''Year''), (src, metric), (''source'', ''Source'')] t"
  define g where "g jy jm = (\<lambda>r::row. (fst r, (snd r)[jy := to_numeric parse (snd r ! jy), jm := to_numeric parse (snd r ! jm)]))" for jy jm
  from prep_pct_rows [OF wf False my res] obtain jy jm where
    py: "positions ''Year'' (columns out) = [jy]" and pm: "positions metric (columns out) = [jm]"
    and cols: "columns out = columns df"
    and rws: "rows out =
       srt (key_of num_key jy)
         (filter (\<lambda>r. num_key (snd r ! jy) \<noteq> None)
           (filter (\<lambda>r. snd r ! jy \<noteq> NaN \<and> snd r ! jm \<noteq> NaN) (map (g jy jm) (rows t))))
       @ filter (\<lambda>r. num_key (snd r ! jy) = None)
           (filter (\<lambda>r. snd r ! jy \<noteq> NaN \<and> snd r ! jm \<noteq> NaN) (map (g jy jm) (rows t)))"
    unfolding df_def g_def by blast
  define R where "R = filter (\<lambda>r. snd r ! jy \<noteq> NaN \<and> snd r ! jm \<noteq> NaN) (map (g jy jm) (rows t))"
  have len_cols: "length (columns df) = length (columns t)"
    by (simp add: df_def rename_columns_def)
  have jy_lt: "jy < length (columns t)" and jm_lt: "jm < length (columns t)"
    using positions_singleD(1) [OF py] positions_singleD(1) [OF pm] cols len_cols by simp_all
  have neq: "jy \<noteq> jm"
    using positions_singleD(2) [OF py] positions_singleD(2) [OF pm] my by auto
  have g_y: "snd (g jy jm r) ! jy = to_numeric parse (snd r ! jy)"
    and g_m: "snd (g jy jm r) ! jm = to_numeric parse (snd r ! jm)"
    and g_i: "fst (g jy jm r) = fst r" if "r \<in> set (rows t)" for r
    using wf_table_length [OF wf that] jy_lt jm_lt neq by (simp_all add: g_def)
  have R_num: "\<exists>y p. snd r ! jy = Num y \<and> snd r ! jm = Num p" if "r \<in> set R" for r
  proof -
    from that obtain r0 where r0: "r0 \<in> set (rows t)" and r: "r = g jy jm r0"
      and ok: "snd r ! jy \<noteq> NaN" "snd r ! jm \<noteq> NaN"
      by (auto simp: R_def)
    show ?thesis
      using ok to_numeric_cases [of parse "snd r0 ! jy"] to_numeric_cases [of parse "snd r0 ! jm"]
      unfolding r g_y [OF r0] g_m [OF r0] by blast
  qed
  have R_key: "num_key (snd r ! jy) \<noteq> None" if "r \<in> set R" for r
    using R_num [OF that] by auto
  have f1: "filter (\<lambda>r. num_key (snd r ! jy) \<noteq> None) R = R"
    using R_key by (simp add: filter_id_conv)
  have f2: "filter (\<lambda>r. num_key (snd r ! jy) = None) R = []"
    using R_key by (simp add: filter_empty_conv)
  have rows_out: "rows out = srt (key_of num_key jy) R"
    using rws unfolding R_def [symmetric] f1 f2 by simp
  have set_out: "set (rows out) = set R"
    unfolding rows_out by (rule sorts_by_set [OF srt])
  have cy: "cell_of ''Year'' out r = Some (snd r ! jy)" and cm: "cell_of metric out r = Some (snd r ! jm)" for r
    using py pm by (simp_all add: cell_of_def)
  have cy0: "cell_of ''Year'' df r = Some (snd r ! jy)" and cm0: "cell_of metric df r = Some (snd r ! jm)" for r
    using py pm cols by (simp_all add: cell_of_def)
  have absent: "fst r \<notin> fst ` set (rows out)"
    if r: "r \<in> set (rows t)" and bad: "fails_coercion parse ''Year'' df r \<or> fails_coercion parse metric df r" for r
  proof
    assume "fst r \<in> fst ` set (rows out)"
    then obtain r' where r': "r' \<in> set R" and i: "fst r' = fst r"
      unfolding set_out by auto
    from r' obtain r0 where r0: "r0 \<in> set (rows t)" and e: "r' = g jy jm r0"
      by (auto simp: R_def)
    have "fst r0 = fst r" using i e g_i [OF r0] by simp
    then have "r0 = r" using dist r r0 by (meson eq_key_imp_eq_value distinct_map inj_onD)
    then have "snd r' ! jy = to_numeric parse (snd r ! jy)" "snd r' ! jm = to_numeric parse (snd r ! jm)"
      using e g_y [OF r] g_m [OF r] by simp_all
    moreover have "to_numeric parse (snd r ! jy) = NaN \<or> to_numeric parse (snd r ! jm) = NaN"
      using bad by (simp add: fails_coercion_def cy0 cm0)
    ultimately show False using R_num [OF r'] by auto
  qed
  have numeric: "numeric_in ''Year'' out r \<and> numeric_in metric out r" if "r \<in> set (rows out)" for r
    using R_num [of r] that unfolding set_out by (auto simp: numeric_in_def cy cm)
  have "sorted (map (key_of num_key jy) (rows out))"
    unfolding rows_out by (rule sorts_by_sorted [OF srt])
  then have "sorted_wrt (\<lambda>a b. key_of num_key jy a \<le> key_of num_key jy b) (rows out)"
    by (simp add: sorted_map)
  then have sorted: "sorted_wrt (year_le out) (rows out)"
  proof (rule sorted_wrt_mono_rel [rotated])
    fix a b assume a: "a \<in> set (rows out)" and b: "b \<in> set (rows out)"
      and le: "key_of num_key jy a \<le> key_of num_key jy b"
    from a b obtain ya yb where "snd a ! jy = Num ya" "snd b ! jy = Num yb"
      using R_num unfolding set_out by blast
    then show "year_le out a b"
      using le by (simp add: year_le_def cy key_of_def)
  qed
  show ?thesis
    unfolding pct_series_ok_def df_def [symmetric] Let_def
    using absent numeric sorted by blast
qed

text \<open>
  Claim C3. For every input frame of the percent-series shapers \<^verbatim>\<open>prep_lottery\<close> and
  \<^verbatim>\<open>prep_crypto\<close>: a row whose Year or whose metric value fails numeric coercion is
  absent from the output (its index label does not occur there), every output row has
  a number in both columns, and the output rows are non-decreasing in Year.
\<close>

theorem percent_series_shaper:
  assumes "sorts_by srt" and "wf_table t" and "distinct (map fst (rows t))"
  shows "(\<forall>out. prep_lottery parse srt t = Inr out
            \<longrightarrow> pct_series_ok ''under30_lottery_pct'' ''Under30LotteryPct'' parse t out)
       \<and> (\<forall>out. prep_crypto parse srt t = Inr out
            \<longrightarrow> pct_series_ok ''under30_crypto_pct'' ''Under30CryptoPct'' parse t out)"
proof (intro conjI allI impI)
  fix out assume "prep_lottery parse srt t = Inr out"
  then have "prep_pct ''under30_lottery_pct'' ''Under30LotteryPct'' parse srt t = Inr out"
    by (simp add: prep_lottery_def)
  then show "pct_series_ok ''under30_lottery_pct'' ''Under30LotteryPct'' parse t out"
    by (rule prep_pct_ok [OF assms, rotated]) simp
next
  fix out assume "prep_crypto parse srt t = Inr out"
  then have "prep_pct ''under30_crypto_pct'' ''Under30CryptoPct'' parse srt t = Inr out"
    by (simp add: prep_crypto_def)
  then show "pct_series_ok ''under30_crypto_pct'' ''Under30CryptoPct'' parse t out"
    by (rule prep_pct_ok [OF assms, rotated]) simp
qed

lemma prep_lottery_example: "prep_lottery ex_parse sort_key ex_lottery = Inr ex_lottery_out"
  by (simp add: ex_lottery_def ex_lottery_out_def ex_parse_def prep_lottery_def prep_pct_def
      empty_df_def rename_columns_def coerce_column_def getitem_def positions_def setitem_def
      set_row_def with_column_def dropna_def sort_values_def key_of_def)

lemma prep_crypto_example: "prep_crypto ex_parse sort_key ex_crypto = Inr ex_crypto_out"
  by (simp add: ex_crypto_def ex_crypto_out_def ex_parse_def prep_crypto_def prep_pct_def
      empty_df_def rename_columns_def coerce_column_def getitem_def positions_def setitem_def
      set_row_def with_column_def dropna_def sort_values_def key_of_def)

theorem percent_series_shaper_witness:
  "sorts_by sort_key
   \<and> wf_table ex_lottery \<and> distinct (map fst (rows ex_lottery))
   \<and> prep_lottery ex_parse sort_key ex_lottery = Inr ex_lottery_out
   \<and> pct_series_ok ''under30_lottery_pct'' ''Under30LotteryPct'' ex_parse ex_lottery ex_lottery_out
   \<and> wf_table ex_crypto \<and> distinct (map fst (rows ex_crypto))
   \<and> prep_crypto ex_parse sort_key ex_crypto = Inr ex_crypto_out
   \<and> pct_series_ok ''under30_crypto_pct'' ''Under30CryptoPct'' ex_parse ex_crypto ex_crypto_out"
proof -
  have w1: "wf_table ex_lottery" and d1: "distinct (map fst (rows ex_lottery))"
    by (simp_all add: ex_lottery_def wf_table_def)
  have w2: "wf_table ex_crypto" and d2: "distinct (map fst (rows ex_crypto))"
    by (simp_all add: ex_crypto_def wf_table_def)
  have "pct_series_ok ''under30_lottery_pct'' ''Under30LotteryPct'' ex_parse ex_lottery ex_lottery_out"
    using percent_series_shaper [OF sorts_by_sort_key w1 d1, of ex_parse] prep_lottery_example
    by blast
  moreover
  have "pct_series_ok ''under30_crypto_pct'' ''Under30CryptoPct'' ex_parse ex_crypto ex_crypto_out"
    using percent_series_shaper [OF sorts_by_sort_key w2 d2, of ex_parse] prep_crypto_example
    by blast
  ultimately show ?thesis
    using sorts_by_sort_key w1 d1 w2 d2 prep_lottery_example prep_crypto_example by simp
qed

lemma drop_all_ages_Inr:
  assumes "drop_all_ages df = Inr df1"
  obtains ja where "positions ''AgeGroup'' (columns df) = [ja]"
    and "df1 = df\<lparr>rows := filter (\<lambda>r. not_all_ages (snd r ! ja)) (rows df)\<rparr>"
proof -
  from assms obtain ja where g: "getitem AttributeError ''AgeGroup'' df = Inr ja"
    and d: "df1 = df\<lparr>rows := filter (\<lambda>r. not_all_ages (snd r ! ja)) (rows df)\<rparr>"
    by (auto simp: drop_all_ages_def split: sum.splits if_splits)
  show thesis using that [OF _ d] g by (simp add: getitem_Inr)
qed

lemma add_monthly_Inr:
  assumes "add_monthly parse df1 = Inr df2"
  obtains js where "positions ''AvgAnnualSpend'' (columns df1) = [js]"
    and "df2 = setitem ''AvgMonthlySpend'' (\<lambda>cs. div12 (to_numeric parse (cs ! js))) df1"
proof -
  from assms obtain js where g: "getitem TypeError ''AvgAnnualSpend'' df1 = Inr js"
    and d: "df2 = setitem ''AvgMonthlySpend'' (\<lambda>cs. div12 (to_numeric parse (cs ! js))) df1"
    by (auto simp: add_monthly_def split: sum.splits)
  show thesis using that [OF _ d] g by (simp add: getitem_Inr)
qed

lemma order_by_age_Inr:
  assumes wf: "wf_table df2" and res: "order_by_age srt df2 = Inr out"
  obtains ja where "positions ''AgeGroup'' (columns df2) = [ja]"
    and "columns out = columns df2"
    and "rows out =
       srt (key_of cat_code ja)
         (filter (\<lambda>r. cat_code (snd r ! ja) \<noteq> None)
            (map (\<lambda>r. (fst r, (snd r)[ja := categorical (snd r ! ja)])) (rows df2)))
       @ filter (\<lambda>r. cat_code (snd r ! ja) = None)
            (map (\<lambda>r. (fst r, (snd r)[ja := categorical (snd r ! ja)])) (rows df2))"
proof -
  from res obtain ja where g: "getitem TypeError ''AgeGroup'' df2 = Inr ja"
    and s: "sort_values ''AgeGroup'' cat_code srt
              (setitem ''AgeGroup'' (\<lambda>cs. categorical (cs ! ja)) df2) = Inr out"
    by (auto simp: order_by_age_def split: sum.splits)
  have p: "positions ''AgeGroup'' (columns df2) = [ja]" using g by (simp add: getitem_Inr)
  define df3 where "df3 = df2\<lparr>rows := map (\<lambda>r. (fst r, (snd r)[ja := categorical (snd r ! ja)])) (rows df2)\<rparr>"
  have e: "setitem ''AgeGroup'' (\<lambda>cs. categorical (cs ! ja)) df2 = df3"
    unfolding df3_def by (rule setitem_unique [OF wf p])
  from sort_values_Inr [OF s [unfolded e]] obtain j where
    j: "positions ''AgeGroup'' (columns df3) = [j]" and
    o: "out = df3\<lparr>rows := srt (key_of cat_code j) (filter (\<lambda>r. cat_code (snd r ! j) \<noteq> None) (rows df3))
                              @ filter (\<lambda>r. cat_code (snd r ! j) = None) (rows df3)\<rparr>"
    by blast
  have jj: "j = ja" using j p by (simp add: df3_def)
  show thesis
  proof (rule that [OF p])
    show "columns out = columns df2" using o by (simp add: df3_def)
    show "rows out =
       srt (key_of cat_code ja)
         (filter (\<lambda>r. cat_code (snd r ! ja) \<noteq> None)
            (map (\<lambda>r. (fst r, (snd r)[ja := categorical (snd r ! ja)])) (rows df2)))
       @ filter (\<lambda>r. cat_code (snd r ! ja) = None)
            (map (\<lambda>r. (fst r, (snd r)[ja := categorical (snd r ! ja)])) (rows df2))"
      using o unfolding jj by (simp add: df3_def)
  qed
qed

text \<open>The three steps of prep_bls on a frame that is not empty.\<close>

lemma prep_bls_steps:
  assumes "\<not> empty_df t" and "prep_bls parse srt t = Inr out"
  obtains df1 df2 where
    "(if ''AgeGroup'' \<in> set (columns (rename_columns [(''age_group'', ''AgeGroup''), (''avg_annual_spend_usd'', ''AvgAnnualSpend'')] t))
      then drop_all_ages (rename_columns [(''age_group'', ''AgeGroup''), (''avg_annual_spend_usd'', ''AvgAnnualSpend'')] t)
      else Inr (rename_columns [(''age_group'', ''AgeGroup''), (''avg_annual_spend_usd'', ''AvgAnnualSpend'')] t)) = Inr df1"
    and "(if ''AvgAnnualSpend'' \<in> set (columns df1) then add_monthly parse df1 else Inr df1) = Inr df2"
    and "(if ''AgeGroup'' \<in> set (columns df2) then order_by_age srt df2 else Inr df2) = Inr out"
  using assms unfolding prep_bls_def Let_def by (simp split: sum.splits)

lemma lower_age_order: "s \<in> set age_order \<Longrightarrow> lower s \<noteq> ''all ages''"
  by (auto simp: age_order_def lower_def lower_char_def)

lemma rank_None_iff: "rank s cs = None \<longleftrightarrow> s \<notin> set cs"
  by (induction cs) auto

lemma rank_Some_iff: "(\<exists>k. rank s cs = Some k) \<longleftrightarrow> s \<in> set cs"
  using rank_None_iff [of s cs] by (cases "rank s cs") auto

lemma cat_code_categorical: "cat_code (categorical x) = (if in_bucket x then cat_code x else None)"
  by (cases x) simp_all

lemma cat_code_Some_iff: "cat_code x \<noteq> None \<longleftrightarrow> in_bucket x"
  by (cases x) (simp_all add: rank_Some_iff)

lemma categorical_eq: "categorical x = (if in_bucket x then x else NaN)"
  by (cases x) simp_all

lemma set_sorted_partition:
  assumes "sorts_by srt"
  shows "set (srt k (filter P xs) @ filter (\<lambda>x. \<not> P x) xs) = set xs"
  using sorts_by_set [OF assms] by auto

lemma cell_of_unique: "positions c (columns t) = [j] \<Longrightarrow> cell_of c t r = Some (snd r ! j)"
  by (simp add: cell_of_def)

lemma cell_of_Some:
  assumes "cell_of c t r = Some x"
  obtains j where "positions c (columns t) = [j]" and "x = snd r ! j"
  using assms by (auto simp: cell_of_def split: list.splits)

lemma cell_of_absent: "c \<notin> set (columns t) \<Longrightarrow> cell_of c t r = None"
  using positions_Nil_iff [of c "columns t"] by (simp add: cell_of_def)

text \<open>Second step: the monthly column.\<close>

lemma monthly_step:
  assumes wf: "wf_table df1"
    and st: "(if ''AvgAnnualSpend'' \<in> set (columns df1) then add_monthly parse df1 else Inr df1) = Inr df2"
  obtains h where "rows df2 = map h (rows df1)"
    and "\<And>r. fst (h r) = fst r"
    and "\<And>r j. r \<in> set (rows df1) \<Longrightarrow> j < length (columns df1) \<Longrightarrow> columns df1 ! j \<noteq> ''AvgMonthlySpend''
           \<Longrightarrow> snd (h r) ! j = snd r ! j"
    and "wf_table df2"
    and "\<And>c. c \<noteq> ''AvgMonthlySpend'' \<Longrightarrow> positions c (columns df2) = positions c (columns df1)"
    and "\<And>r. r \<in> set (rows df2) \<Longrightarrow> monthly_ok parse df2 r"
proof (cases "''AvgAnnualSpend'' \<in> set (columns df1)")
  case False
  then have e: "df2 = df1" using st by simp
  have "monthly_ok parse df2 r" for r
    using False by (simp add: e monthly_ok_def cell_of_absent)
  then show thesis using that [of id] wf by (simp add: e)
next
  case True
  then have "add_monthly parse df1 = Inr df2" using st by simp
  from add_monthly_Inr [OF this] obtain js where
    js: "positions ''AvgAnnualSpend'' (columns df1) = [js]" and
    d: "df2 = setitem ''AvgMonthlySpend'' (\<lambda>cs. div12 (to_numeric parse (cs ! js))) df1"
    by blast
  define f where "f = (\<lambda>cs. div12 (to_numeric parse (cs ! js)))"
  define h where "h = set_row ''AvgMonthlySpend'' f (columns df1)"
  have cols: "columns df2 = with_column ''AvgMonthlySpend'' (columns df1)"
    and rws: "rows df2 = map h (rows df1)"
    by (simp_all add: d setitem_def h_def f_def)
  have pos: "positions c (columns df2) = positions c (columns df1)" if "c \<noteq> ''AvgMonthlySpend''" for c
    unfolding cols by (rule positions_with_column_other [OF that])
  have keep: "snd (h r) ! j = snd r ! j"
    if r: "r \<in> set (rows df1)" and j: "j < length (columns df1)" and n: "columns df1 ! j \<noteq> ''AvgMonthlySpend''" for r j
  proof -
    have jl: "j < length (with_column ''AvgMonthlySpend'' (columns df1))"
      using j by (simp add: with_column_def)
    have "with_column ''AvgMonthlySpend'' (columns df1) ! j = columns df1 ! j"
      using j by (simp add: with_column_def nth_append)
    then show ?thesis
      unfolding h_def using set_row_nth [OF wf_table_length [OF wf r] jl, of f] n by simp
  qed
  have wf2: "wf_table df2" unfolding d by (rule wf_setitem [OF wf])
  have ok: "monthly_ok parse df2 r'" if "r' \<in> set (rows df2)" for r'
  proof -
    from that obtain r where r: "r \<in> set (rows df1)" and r': "r' = h r" using rws by auto
    have js2: "positions ''AvgAnnualSpend'' (columns df2) = [js]" using pos js by simp
    have js_lt: "js < length (columns df1)" and js_nm: "columns df1 ! js = ''AvgAnnualSpend''"
      using positions_singleD(1,2) [OF js] by simp_all
    have a: "snd r' ! js = snd r ! js"
      unfolding r' using keep [OF r js_lt] js_nm by simp
    have m: "snd r' ! j = div12 (to_numeric parse (snd r ! js))"
      if "j \<in> set (positions ''AvgMonthlySpend'' (columns df2))" for j
    proof -
      from that have jl: "j < length (with_column ''AvgMonthlySpend'' (columns df1))"
        and jn: "with_column ''AvgMonthlySpend'' (columns df1) ! j = ''AvgMonthlySpend''"
        unfolding cols set_positions by simp_all
      show ?thesis
        unfolding r' h_def using set_row_nth [OF wf_table_length [OF wf r] jl, of f] jn
        by (simp add: f_def)
    qed
    have ne: "positions ''AvgMonthlySpend'' (columns df2) \<noteq> []"
      unfolding cols positions_Nil_iff using with_column_mem by simp
    show ?thesis
      unfolding monthly_ok_def cell_of_unique [OF js2] a
      using m ne by (auto split: cell.splits)
  qed
  show thesis
    by (rule that [of h]) (fact rws, simp add: h_def fst_set_row, fact keep, fact wf2, fact pos, fact ok)
qed

end
